theory Spec2Isabelle
  imports
    Main
    "HOL-Library.Sublist"
    "HOL-Library.Char_ord"
    "HOL-Library.List_Lexorder"
    "HOL-Library.Option_ord"
begin

section \<open>The web spider of \<^verbatim>\<open>scripts/spiders/web_spider_oo.py\<close>\<close>

subsection \<open>Data\<close>

text \<open>
  A link is whatever \<^verbatim>\<open>link.get("href")\<close> yields: a string, or Python's
  \<^verbatim>\<open>None\<close> for an anchor without target.
\<close>

type_synonym link = "string option"

text \<open>The exceptions that can leave the methods modelled here.\<close>

datatype error =
    TypeError
  | AttributeError
  | ValueError
  | RequestException

text \<open>
  What the run reads of a \<^verbatim>\<open>requests.Response\<close>; \<open>page_text\<close> is its
  attribute \<^verbatim>\<open>text\<close>.
\<close>

record response =
  status_code :: int
  content :: string
  page_text :: string

text \<open>
  The attributes of \<^verbatim>\<open>SpiderIndexSQLSetup\<close> that \<^verbatim>\<open>upload_data_to_sql\<close>
  reads. The engine itself is opaque; calls on it are logged.
\<close>

record SpiderIndexSQLSetup =
  db_index_schema :: string
  db_index_table_name :: string
  unique_links_schema :: string
  unique_links_table_name :: string

text \<open>
  The two data frames of the class, by their rows: columns
  \<^verbatim>\<open>pen_depth, parent_link, child_link\<close> and \<^verbatim>\<open>link_id, link_name\<close>.
\<close>

datatype dataframe =
    Parent_child "(int \<times> link \<times> link) list"
  | Unique_links "(nat \<times> link) list"

text \<open>
  A call that reaches the relational side: \<^verbatim>\<open>data_df.to_sql(name, schema)\<close> or
  \<^verbatim>\<open>sql_engine.dispose()\<close>.
\<close>

datatype sql_call =
    To_sql string string dataframe
  | Dispose

text \<open>
  The instance attributes of \<^verbatim>\<open>WebSpider\<close>, followed by the part of the outside
  world a run acts on: the links handed to \<^verbatim>\<open>session.get\<close> in order, the files under
  their path, and the calls made on the relational side in order.
  \<^verbatim>\<open>indexing_definitions_obj\<close> is \<open>None\<close> when the attribute was never bound.
\<close>

record WebSpider =
  root_site :: string
  pen_depth :: int
  raw_files_save_path :: string
  indexing_definitions_obj :: "SpiderIndexSQLSetup option"
  indexing_on :: bool
  unique_links_set :: "link set"
  filter_word_list :: "string list"
  requested :: "link list"
  files :: "string \<rightharpoonup> string"
  sql_calls :: "sql_call list"

text \<open>
  The collaborators outside the repository: the HTTP session (\<open>Inl\<close> is an exception
  raised by the transport), the HTML parser's list of anchor targets, the MD5 digest in
  hexadecimal, and the order in which Python iterates over a set.
\<close>

record env =
  session_get :: "link \<Rightarrow> error + response"
  find_all_a_href :: "string \<Rightarrow> link list"
  md5_hexdigest :: "string \<Rightarrow> string"
  set_iter :: "link set \<Rightarrow> link list"

subsection \<open>Strings\<close>

text \<open>\<^verbatim>\<open>str.lower\<close> on ASCII letters.\<close>

definition lower_char :: "char \<Rightarrow> char" where
  "lower_char c =
     (let n = (of_char c :: nat) in if 65 \<le> n \<and> n \<le> 90 then char_of (n + 32) else c)"

definition lower :: "string \<Rightarrow> string" where
  "lower s = map lower_char s"

text \<open>\<^verbatim>\<open>s.endswith(suf)\<close>.\<close>

definition endswith :: "string \<Rightarrow> string \<Rightarrow> bool" where
  "endswith s suf = suffix suf s"

text \<open>\<^verbatim>\<open>s.replace(a, b)\<close> for one-character \<open>a\<close> and \<open>b\<close>.\<close>

definition replace_char :: "char \<Rightarrow> char \<Rightarrow> string \<Rightarrow> string" where
  "replace_char a b s = map (\<lambda>c. if c = a then b else c) s"

text \<open>
  \<^verbatim>\<open>w in x\<close> for a string \<open>w\<close>: the substring test when \<open>x\<close> is a string, a
  \<^verbatim>\<open>TypeError\<close> when \<open>x\<close> is \<^verbatim>\<open>None\<close>.
\<close>

fun str_in :: "string \<Rightarrow> link \<Rightarrow> error + bool" where
  "str_in w None = Inl TypeError"
| "str_in w (Some s) = Inr (sublist w s)"

subsection \<open>Construction\<close>

definition bind_filter_word_list :: "string list" where
  "bind_filter_word_list =
     [''career'', ''login'', ''pay'', ''your'', ''account'', ''auth'', ''contact'',
      ''activate'', ''reservation'', ''book'', ''tel'', ''facebook'', ''instagram'',
      ''subscribe'', ''google'', ''linkedin'', ''youtube'', ''mail'', ''app'', ''App'']"

text \<open>
  \<^verbatim>\<open>__init__\<close>; the \<^verbatim>\<open>isinstance\<close> check is the type of the argument here.
  \<open>fs\<close> is the file store found when the instance is made.
\<close>

definition init ::
  "string \<Rightarrow> int \<Rightarrow> string \<Rightarrow> SpiderIndexSQLSetup option \<Rightarrow> (string \<rightharpoonup> string) \<Rightarrow> WebSpider"
where
  "init root depth path obj fs =
     \<lparr> root_site = root,
       pen_depth = depth,
       raw_files_save_path = path,
       indexing_definitions_obj = obj,
       indexing_on = (obj \<noteq> None),
       unique_links_set = {},
       filter_word_list = bind_filter_word_list,
       requested = [],
       files = fs,
       sql_calls = [] \<rparr>"

subsection \<open>The link filter\<close>

text \<open>
  The loop of \<^verbatim>\<open>clean_webpage_links\<close> over \<^verbatim>\<open>product(links_list, filter_word_list)\<close>,
  with \<^verbatim>\<open>clean_links\<close> as accumulator. The first operand of \<^verbatim>\<open>and\<close> is evaluated
  first, so a \<^verbatim>\<open>None\<close> link raises before it is compared with \<^verbatim>\<open>(None, "/")\<close>.
\<close>

fun clean_loop :: "(link \<times> string) list \<Rightarrow> link list \<Rightarrow> error + link list" where
  "clean_loop [] clean_links = Inr clean_links"
| "clean_loop (link_tuples # rest) clean_links =
     (case str_in (snd link_tuples) (fst link_tuples) of
        Inl e \<Rightarrow> Inl e
      | Inr found \<Rightarrow>
          if \<not> found \<and> fst link_tuples \<notin> {None, Some ''/''}
          then clean_loop rest (clean_links @ [fst link_tuples])
          else clean_loop rest clean_links)"

definition clean_webpage_links :: "WebSpider \<Rightarrow> link list \<Rightarrow> error + link set" where
  "clean_webpage_links self links_list =
     (case clean_loop (List.product links_list (filter_word_list self)) [] of
        Inl e \<Rightarrow> Inl e
      | Inr clean_links \<Rightarrow> Inr (set clean_links))"

subsection \<open>Persisting pages\<close>

definition generate_output_file_name ::
  "env \<Rightarrow> WebSpider \<Rightarrow> string \<Rightarrow> string \<Rightarrow> error + string"
where
  "generate_output_file_name e self webpage file_type_flag =
     (if lower file_type_flag \<notin> {''pdf'', ''txt''} then Inl ValueError
      else
        let cleaned_root =
              replace_char (CHR ''/'') (CHR ''_'')
                (replace_char (CHR 0x5C) (CHR ''_'') (root_site self));
            unique_url_hash = md5_hexdigest e (root_site self @ webpage)
        in Inr (cleaned_root @ unique_url_hash @ ''.'' @ lower file_type_flag))"

text \<open>
  \<^verbatim>\<open>open(path, 'a')\<close> followed by three writes: the text goes after what the file
  already holds. A failing \<^verbatim>\<open>open\<close> (missing directory) is outside the model.
\<close>

definition save_webpage_as_text ::
  "env \<Rightarrow> WebSpider \<Rightarrow> string \<Rightarrow> response \<Rightarrow> error + WebSpider"
where
  "save_webpage_as_text e self web_url returned_request =
     (case generate_output_file_name e self web_url ''txt'' of
        Inl err \<Rightarrow> Inl err
      | Inr save_name \<Rightarrow>
          let path = raw_files_save_path self @ save_name @ ''.txt'';
              before = (case files self path of None \<Rightarrow> [] | Some old \<Rightarrow> old)
          in Inr (self\<lparr>files := (files self)(path \<mapsto>
                before @ ''root_site:'' @ root_site self @ [CHR 0x0A]
                       @ ''web_url:'' @ web_url @ [CHR 0x0A]
                       @ page_text returned_request)\<rparr>))"

text \<open>\<^verbatim>\<open>open(path, 'wb')\<close> followed by one write: the file holds the content only.\<close>

definition save_webpage_as_pdf ::
  "env \<Rightarrow> WebSpider \<Rightarrow> string \<Rightarrow> response \<Rightarrow> error + WebSpider"
where
  "save_webpage_as_pdf e self web_url returned_request =
     (case generate_output_file_name e self web_url ''pdf'' of
        Inl err \<Rightarrow> Inl err
      | Inr save_name \<Rightarrow>
          let path = raw_files_save_path self @ save_name @ ''.pdf''
          in Inr (self\<lparr>files := (files self)(path \<mapsto> content returned_request)\<rparr>))"

subsection \<open>Indexing\<close>

definition create_parent_child_dataframe ::
  "env \<Rightarrow> WebSpider \<Rightarrow> link \<Rightarrow> link set \<Rightarrow> dataframe"
where
  "create_parent_child_dataframe e self parent_link child_links =
     Parent_child (map (\<lambda>child. (pen_depth self, parent_link, child)) (set_iter e child_links))"

definition create_unique_links_df :: "env \<Rightarrow> WebSpider \<Rightarrow> dataframe" where
  "create_unique_links_df e self =
     Unique_links (List.enumerate 0 (set_iter e (unique_links_set self)))"

definition upload_data_to_sql :: "WebSpider \<Rightarrow> dataframe \<Rightarrow> string \<Rightarrow> error + WebSpider" where
  "upload_data_to_sql self data_df flag =
     (if flag = ''index'' then
        (case indexing_definitions_obj self of
           None \<Rightarrow> Inl AttributeError
         | Some obj \<Rightarrow>
             Inr (self\<lparr>sql_calls := sql_calls self @
                    [To_sql (db_index_table_name obj) (db_index_schema obj) data_df]\<rparr>))
      else if flag = ''unique_links'' then
        (case indexing_definitions_obj self of
           None \<Rightarrow> Inl AttributeError
         | Some obj \<Rightarrow>
             Inr (self\<lparr>sql_calls := sql_calls self @
                    [To_sql (unique_links_table_name obj) (unique_links_schema obj) data_df]\<rparr>))
      else Inl ValueError)"

subsection \<open>The run\<close>

definition get_request_with_delay :: "env \<Rightarrow> WebSpider \<Rightarrow> link \<Rightarrow> (error + response) \<times> WebSpider" where
  "get_request_with_delay e self parent_link =
     (session_get e parent_link, self\<lparr>requested := requested self @ [parent_link]\<rparr>)"

definition get_all_links_from_page :: "env \<Rightarrow> response \<Rightarrow> link list" where
  "get_all_links_from_page e returned_request = find_all_a_href e (content returned_request)"

text \<open>
  Lines 110 to 119 of \<^verbatim>\<open>run_spider\<close>: extract, filter, add to the children of this
  depth and, with indexing on, upload the rows of this parent. The result is the exception
  that left the body, if any, with the instance and \<^verbatim>\<open>child_level_links\<close> at that moment.
\<close>

definition run_spider_links ::
  "env \<Rightarrow> link \<Rightarrow> response \<Rightarrow> WebSpider \<Rightarrow> link set \<Rightarrow> error option \<times> WebSpider \<times> link set"
where
  "run_spider_links e parent_link site_request self child_level_links =
     (let raw_child_links = get_all_links_from_page e site_request in
      case clean_webpage_links self raw_child_links of
        Inl err \<Rightarrow> (Some err, self, child_level_links)
      | Inr cleaned_child_links \<Rightarrow>
          let child_level_links = child_level_links \<union> cleaned_child_links in
          if indexing_on self then
            (let parent_child_df =
                   create_parent_child_dataframe e self parent_link child_level_links in
             case upload_data_to_sql self parent_child_df ''index'' of
               Inl err \<Rightarrow> (Some err, self, child_level_links)
             | Inr self' \<Rightarrow> (None, self', child_level_links))
          else (None, self, child_level_links))"

text \<open>
  The body of the inner loop of \<^verbatim>\<open>run_spider\<close> for one \<^verbatim>\<open>parent_link\<close>.
  \<^verbatim>\<open>parent_link.lower()\<close> on \<^verbatim>\<open>None\<close> raises \<^verbatim>\<open>AttributeError\<close>.
\<close>

definition run_spider_parent ::
  "env \<Rightarrow> link \<Rightarrow> WebSpider \<Rightarrow> link set \<Rightarrow> error option \<times> WebSpider \<times> link set"
where
  "run_spider_parent e parent_link self0 child_level_links =
     (if parent_link \<in> unique_links_set self0 then (None, self0, child_level_links)
      else
        let self1 = self0\<lparr>unique_links_set := insert parent_link (unique_links_set self0)\<rparr> in
        case get_request_with_delay e self1 parent_link of
          (Inl err, self) \<Rightarrow> (Some err, self, child_level_links)
        | (Inr site_request, self) \<Rightarrow>
            if status_code site_request \<noteq> 200 then (None, self, child_level_links)
            else
              (case parent_link of
                 None \<Rightarrow> (Some AttributeError, self, child_level_links)
               | Some url \<Rightarrow>
                   if endswith (lower url) ''pdf'' then
                     (case save_webpage_as_pdf e self url site_request of
                        Inl err \<Rightarrow> (Some err, self, child_level_links)
                      | Inr self' \<Rightarrow>
                          run_spider_links e parent_link site_request self' child_level_links)
                   else if endswith (lower url) ''xlsx'' then (None, self, child_level_links)
                   else if endswith (lower url) ''xls'' then (None, self, child_level_links)
                   else
                     (case save_webpage_as_text e self url site_request of
                        Inl err \<Rightarrow> (Some err, self, child_level_links)
                      | Inr self' \<Rightarrow>
                          run_spider_links e parent_link site_request self' child_level_links)))"

text \<open>The inner loop, over the parents in the order the set yields them.\<close>

fun run_spider_parents ::
  "env \<Rightarrow> link list \<Rightarrow> WebSpider \<Rightarrow> link set \<Rightarrow> error option \<times> WebSpider \<times> link set"
where
  "run_spider_parents e [] self child_level_links = (None, self, child_level_links)"
| "run_spider_parents e (parent_link # rest) self child_level_links =
     (case run_spider_parent e parent_link self child_level_links of
        (Some err, self', children) \<Rightarrow> (Some err, self', children)
      | (None, self', children) \<Rightarrow> run_spider_parents e rest self' children)"

text \<open>
  Line 88: the parents of a depth. At depth 0 \<^verbatim>\<open>child_level_links\<close> is not read (it is
  not bound yet in the source).
\<close>

definition parent_level_links :: "WebSpider \<Rightarrow> nat \<Rightarrow> link set \<Rightarrow> link set" where
  "parent_level_links self depth child_level_links =
     (if depth = 0 then {Some (root_site self)} else child_level_links)"

text \<open>The body of the outer loop for one depth.\<close>

definition run_spider_depth ::
  "env \<Rightarrow> nat \<Rightarrow> WebSpider \<Rightarrow> link set \<Rightarrow> error option \<times> WebSpider \<times> link set"
where
  "run_spider_depth e depth self child_level_links =
     run_spider_parents e
       (set_iter e (parent_level_links self depth child_level_links)) self {}"

text \<open>The outer loop over the depths of \<^verbatim>\<open>range(self.pen_depth)\<close>.\<close>

fun run_spider_depths ::
  "env \<Rightarrow> nat list \<Rightarrow> WebSpider \<Rightarrow> link set \<Rightarrow> error option \<times> WebSpider \<times> link set"
where
  "run_spider_depths e [] self child_level_links = (None, self, child_level_links)"
| "run_spider_depths e (depth # rest) self child_level_links =
     (case run_spider_depth e depth self child_level_links of
        (Some err, self', children) \<Rightarrow> (Some err, self', children)
      | (None, self', children) \<Rightarrow> run_spider_depths e rest self' children)"

text \<open>
  \<^verbatim>\<open>run_spider\<close>: the result is \<open>None\<close> when the method returns and the exception when
  one leaves it, with the instance and the outside world at that moment. The last line,
  \<^verbatim>\<open>self.indexing_definitions_obj.sql_engine.dispose()\<close>, is outside the
  \<^verbatim>\<open>if self.indexing_on\<close> block.
\<close>

definition run_spider :: "env \<Rightarrow> WebSpider \<Rightarrow> error option \<times> WebSpider" where
  "run_spider e self0 =
     (case run_spider_depths e [0 ..< nat (pen_depth self0)] self0 {} of
        (Some err, self, _) \<Rightarrow> (Some err, self)
      | (None, self, _) \<Rightarrow>
          (case (if indexing_on self
                 then upload_data_to_sql self (create_unique_links_df e self) ''unique_links''
                 else Inr self) of
             Inl err \<Rightarrow> (Some err, self)
           | Inr self' \<Rightarrow>
               (case indexing_definitions_obj self' of
                  None \<Rightarrow> (Some AttributeError, self')
                | Some obj \<Rightarrow> (None, self'\<lparr>sql_calls := sql_calls self' @ [Dispose]\<rparr>))))"

subsection \<open>Notions of the specification\<close>

text \<open>The attributes that are bound by \<^verbatim>\<open>__init__\<close> and read, never assigned, by a run.\<close>

definition configuration ::
  "WebSpider \<Rightarrow> string \<times> int \<times> string \<times> SpiderIndexSQLSetup option \<times> bool \<times> string list"
where
  "configuration self =
     (root_site self, pen_depth self, raw_files_save_path self,
      indexing_definitions_obj self, indexing_on self, filter_word_list self)"


text \<open>
  The instance and the children collected after the first \<open>d\<close> depths of a run, and the
  frontier of depth \<open>d\<close>: the parents that depth iterates over.
\<close>

definition after_depths :: "env \<Rightarrow> WebSpider \<Rightarrow> nat \<Rightarrow> error option \<times> WebSpider \<times> link set" where
  "after_depths e self d = run_spider_depths e [0 ..< d] self {}"

definition frontier :: "env \<Rightarrow> WebSpider \<Rightarrow> nat \<Rightarrow> link set" where
  "frontier e self d =
     (case after_depths e self d of (_, self', children) \<Rightarrow> parent_level_links self' d children)"

text \<open>
  Following the specification's words: the filtered child links that a page contributes
  when it is fetched with success, that is status 200, not a spreadsheet, and a list of
  anchors the filter accepts.
\<close>

definition filtered_children :: "env \<Rightarrow> WebSpider \<Rightarrow> link \<Rightarrow> link set" where
  "filtered_children e self parent_link =
     (case (session_get e parent_link, parent_link) of
        (Inr page, Some url) \<Rightarrow>
          if status_code page = 200
             \<and> \<not> (endswith (lower url) ''xlsx'' \<or> endswith (lower url) ''xls'')
          then (case clean_webpage_links self (find_all_a_href e (content page)) of
                  Inr kept \<Rightarrow> kept
                | Inl _ \<Rightarrow> {})
          else {}
      | _ \<Rightarrow> {})"

subsection \<open>A small site\<close>

text \<open>
  Concrete inputs for evaluation: a site of three pages and a spreadsheet, the default
  indexing targets of \<^verbatim>\<open>SpiderIndexSQLSetup\<close>, and an instance with and without
  indexing. Sets are iterated in ascending order here.
\<close>

definition example_page :: "string \<Rightarrow> response" where
  "example_page body = \<lparr> status_code = 200, content = body, page_text = body \<rparr>"

definition example_env :: env where
  "example_env =
     \<lparr> session_get = (\<lambda>l.
         if l = Some ''http://example.com'' then Inr (example_page ''root page'')
         else if l = Some ''/menu'' then Inr (example_page ''menu page'')
         else if l = Some ''/PRICES.XLSX'' then Inr (example_page ''sheet'')
         else Inr \<lparr> status_code = 404, content = [], page_text = [] \<rparr>),
       find_all_a_href = (\<lambda>body.
         if body = ''root page'' then [Some ''/menu'', Some ''/'', Some ''/PRICES.XLSX'']
         else if body = ''menu page'' then [Some ''/menu'', Some ''/drinks'']
         else if body = ''sheet'' then [Some ''/hidden'']
         else []),
       md5_hexdigest = (\<lambda>s. ''md5:'' @ s),
       set_iter = sorted_list_of_set \<rparr>"

definition example_index :: SpiderIndexSQLSetup where
  "example_index =
     \<lparr> db_index_schema = ''raw'',
       db_index_table_name = ''indexing'',
       unique_links_schema = ''raw'',
       unique_links_table_name = ''unique_links'' \<rparr>"

definition example_spider :: WebSpider where
  "example_spider = init ''http://example.com'' 3 ''out/'' None Map.empty"

definition example_indexing_spider :: WebSpider where
  "example_indexing_spider = init ''http://example.com'' 3 ''out/'' (Some example_index) Map.empty"

text \<open>
  The scenario of the specification with deny-list \<^verbatim>\<open>["login"]\<close>: the root page links
  to \<^verbatim>\<open>"/about"\<close> and to \<^verbatim>\<open>"http://example.com/login"\<close>.
\<close>

definition login_scenario_spider :: WebSpider where
  "login_scenario_spider =
     (init ''http://example.com'' 2 ''out/'' None Map.empty)\<lparr>filter_word_list := [''login'']\<rparr>"

definition login_scenario_env :: env where
  "login_scenario_env =
     \<lparr> session_get = (\<lambda>l.
         if l = Some ''http://example.com'' then Inr (example_page ''root page'')
         else Inr \<lparr> status_code = 404, content = [], page_text = [] \<rparr>),
       find_all_a_href = (\<lambda>body.
         if body = ''root page'' then [Some ''/about'', Some ''http://example.com/login'']
         else []),
       md5_hexdigest = (\<lambda>s. ''md5:'' @ s),
       set_iter = sorted_list_of_set \<rparr>"

section \<open>Strings\<close>

lemma lower_flags: "lower ''pdf'' = ''pdf''" "lower ''txt'' = ''txt''"
  by code_simp+

lemma spreadsheet_not_pdf:
  "endswith s ''xlsx'' \<or> endswith s ''xls'' \<Longrightarrow> \<not> endswith s ''pdf''"
  by (auto simp: endswith_def suffix_def)


section \<open>The link filter\<close>

text \<open>
  The loop raises exactly when some pair holds a \<^verbatim>\<open>None\<close> link, and otherwise appends
  the string links that lack the word of their pair and are not \<^verbatim>\<open>"/"\<close>.
\<close>

lemma clean_loop_raises_iff:
  "(\<exists>out. clean_loop ps acc = Inr out) \<longleftrightarrow> None \<notin> fst ` set ps"
proof (induction ps arbitrary: acc)
  case Nil
  then show ?case by simp
next
  case (Cons p ps)
  obtain l w where p: "p = (l, w)" by (cases p)
  show ?case
  proof (cases l)
    case None
    with p show ?thesis by simp
  next
    case (Some s)
    with p Cons.IH show ?thesis by auto
  qed
qed

lemma clean_loop_set:
  "clean_loop ps acc = Inr out \<Longrightarrow>
     set out = set acc \<union> {Some s |s w. (Some s, w) \<in> set ps \<and> \<not> sublist w s \<and> s \<noteq> ''/''}"
proof (induction ps arbitrary: acc)
  case Nil
  then show ?case by simp
next
  case (Cons p ps)
  obtain l w where p: "p = (l, w)" by (cases p)
  show ?case
  proof (cases l)
    case None
    with p Cons.prems show ?thesis by simp
  next
    case (Some s)
    show ?thesis
    proof (cases "\<not> sublist w s \<and> s \<noteq> ''/''")
      case True
      with p Some Cons.prems have "clean_loop ps (acc @ [Some s]) = Inr out" by simp
      from Cons.IH [OF this] p Some True show ?thesis by auto
    next
      case False
      with p Some Cons.prems have "clean_loop ps acc = Inr out" by auto
      from Cons.IH [OF this] p Some False show ?thesis by auto
    qed
  qed
qed

lemma clean_webpage_links_returns:
  "(\<exists>kept. clean_webpage_links self links_list = Inr kept)
     \<longleftrightarrow> None \<notin> set links_list \<or> filter_word_list self = []"
proof -
  have "(\<exists>kept. clean_webpage_links self links_list = Inr kept)
          \<longleftrightarrow> (\<exists>out. clean_loop (List.product links_list (filter_word_list self)) [] = Inr out)"
    by (auto simp: clean_webpage_links_def split: sum.splits)
  also have "\<dots> \<longleftrightarrow> None \<notin> fst ` set (List.product links_list (filter_word_list self))"
    by (rule clean_loop_raises_iff)
  also have "\<dots> \<longleftrightarrow> None \<notin> set links_list \<or> filter_word_list self = []"
    by (cases "filter_word_list self") (auto simp: image_iff)
  finally show ?thesis .
qed

lemma clean_webpage_links_kept:
  assumes "clean_webpage_links self links_list = Inr kept"
  shows "kept = {Some s |s. Some s \<in> set links_list \<and> s \<noteq> ''/''
                   \<and> (\<exists>w \<in> set (filter_word_list self). \<not> sublist w s)}"
proof -
  from assms obtain out
    where out: "clean_loop (List.product links_list (filter_word_list self)) [] = Inr out"
      and kept: "kept = set out"
    by (auto simp: clean_webpage_links_def split: sum.splits)
  from clean_loop_set [OF out] kept show ?thesis by auto
qed

lemma clean_webpage_links_cong:
  "filter_word_list s = filter_word_list s' \<Longrightarrow>
     clean_webpage_links s links = clean_webpage_links s' links"
  by (simp add: clean_webpage_links_def)


text \<open>
  The decision rule where the filter returns: the filter returns a set on every candidate
  list without \<^verbatim>\<open>None\<close>, and in a set it returns a string candidate other than
  \<^verbatim>\<open>"/"\<close> is present if and only if some deny-word is not a substring of it.
\<close>

lemma clean_webpage_links_rule:
  "(None \<notin> set links_list \<longrightarrow> (\<exists>kept. clean_webpage_links self links_list = Inr kept))
   \<and> (clean_webpage_links self links_list = Inr kept \<longrightarrow> Some c \<in> set links_list \<longrightarrow> c \<noteq> ''/'' \<longrightarrow>
        ((Some c \<in> kept \<longleftrightarrow> (\<exists>w \<in> set (filter_word_list self). \<not> sublist w c))
         \<and> (Some c \<notin> kept \<longleftrightarrow> (\<forall>w \<in> set (filter_word_list self). sublist w c))))"
proof (intro conjI impI)
  assume "None \<notin> set links_list"
  then show "\<exists>kept. clean_webpage_links self links_list = Inr kept"
    by (simp add: clean_webpage_links_returns)
next
  assume r: "clean_webpage_links self links_list = Inr kept"
    and c: "Some c \<in> set links_list" "c \<noteq> ''/''"
  from clean_webpage_links_kept [OF r] c
  show "Some c \<in> kept \<longleftrightarrow> (\<exists>w \<in> set (filter_word_list self). \<not> sublist w c)" by simp
  then show "Some c \<notin> kept \<longleftrightarrow> (\<forall>w \<in> set (filter_word_list self). sublist w c)" by blast
qed

text \<open>
  Where it does not return: the only exception of the loop is \<^verbatim>\<open>TypeError\<close>, and it
  leaves the filter on every candidate list that holds a \<^verbatim>\<open>None\<close> when there is a
  deny-word at all, whatever the other candidates are.
\<close>

lemma clean_loop_error: "clean_loop ps acc = Inl err \<Longrightarrow> err = TypeError"
proof (induction ps arbitrary: acc)
  case Nil
  then show ?case by simp
next
  case (Cons p ps)
  obtain l w where p: "p = (l, w)" by (cases p)
  show ?case
  proof (cases l)
    case None
    with p Cons.prems show ?thesis by simp
  next
    case (Some s)
    with p Cons show ?thesis by (auto split: if_splits)
  qed
qed

lemma clean_webpage_links_raises_on_None:
  assumes "None \<in> set links_list" and "filter_word_list self \<noteq> []"
  shows "clean_webpage_links self links_list = Inl TypeError"
proof (cases "clean_webpage_links self links_list")
  case (Inl err)
  then have "clean_loop (List.product links_list (filter_word_list self)) [] = Inl err"
    by (auto simp: clean_webpage_links_def split: sum.splits)
  then have "err = TypeError" by (rule clean_loop_error)
  with Inl show ?thesis by simp
next
  case (Inr kept)
  then have "\<exists>kept. clean_webpage_links self links_list = Inr kept" by blast
  with assms show ?thesis by (simp add: clean_webpage_links_returns)
qed

text \<open>
  Claim C2 does not hold of the code: with the deny-words of the class the candidate
  \<^verbatim>\<open>"/about"\<close> is not \<^verbatim>\<open>None\<close>, is not \<^verbatim>\<open>"/"\<close> and lacks the deny-word
  \<^verbatim>\<open>career\<close>, and alone it is retained; but listed beside a \<^verbatim>\<open>None\<close> it is not
  retained, because the filter raises \<^verbatim>\<open>TypeError\<close> and returns no set.
\<close>

theorem candidate_beside_None_is_not_retained:
  "clean_webpage_links example_spider [Some ''/about'', None] = Inl TypeError
   \<and> \<not> sublist ''career'' ''/about''
   \<and> ''career'' \<in> set (filter_word_list example_spider)
   \<and> clean_webpage_links example_spider [Some ''/about''] = Inr {Some ''/about''}"
  by code_simp

text \<open>
  Claim C3 fails as stated: on the candidate list of the scenario the
  \<^verbatim>\<open>None\<close> entry makes the filter raise \<^verbatim>\<open>TypeError\<close>, so no set is produced.
\<close>

theorem login_scenario_with_None_raises:
  "clean_webpage_links login_scenario_spider
     [Some ''/about'', Some ''http://example.com/login'', None] = Inl TypeError"
  by code_simp

text \<open>
  Claim C3, amended. With the deny-list exactly \<^verbatim>\<open>["login"]\<close> the filter keeps
  \<^verbatim>\<open>"/about"\<close> and drops \<^verbatim>\<open>"http://example.com/login"\<close>, which holds the only
  deny-word: on the candidates \<^verbatim>\<open>["/about", "http://example.com/login"]\<close> it returns
  exactly \<^verbatim>\<open>{"/about"}\<close>, this set is the frontier of depth 1 when the root page
  links to these two, and no set the filter returns on any candidate list holds
  \<^verbatim>\<open>"http://example.com/login"\<close>.
\<close>

theorem login_scenario_drops_login:
  "clean_webpage_links login_scenario_spider
       [Some ''/about'', Some ''http://example.com/login''] = Inr {Some ''/about''}
   \<and> frontier login_scenario_env login_scenario_spider 1 = {Some ''/about''}
   \<and> (clean_webpage_links login_scenario_spider links_list = Inr kept \<longrightarrow>
        Some ''http://example.com/login'' \<notin> kept)"
proof -
  have words: "filter_word_list login_scenario_spider = [''login'']"
    by (simp add: login_scenario_spider_def init_def)
  have "clean_webpage_links login_scenario_spider
       [Some ''/about'', Some ''http://example.com/login''] = Inr {Some ''/about''}"
    by code_simp
  moreover have "frontier login_scenario_env login_scenario_spider 1 = {Some ''/about''}"
    by code_simp
  moreover have "Some ''http://example.com/login'' \<notin> kept"
    if r: "clean_webpage_links login_scenario_spider links_list = Inr kept"
  proof -
    have "sublist ''login'' ''http://example.com/login''" by code_simp
    with clean_webpage_links_kept [OF r] words show ?thesis by simp
  qed
  ultimately show ?thesis by blast
qed

text \<open>
  An instance: the login link listed twice around \<^verbatim>\<open>"/about"\<close>.
\<close>

theorem login_scenario_drops_login_witness:
  "clean_webpage_links login_scenario_spider
       [Some ''http://example.com/login'', Some ''/about'', Some ''http://example.com/login'']
     = Inr {Some ''/about''}
   \<and> Some ''http://example.com/login'' \<notin> {Some ''/about''}"
proof -
  have r: "clean_webpage_links login_scenario_spider
       [Some ''http://example.com/login'', Some ''/about'', Some ''http://example.com/login'']
     = Inr {Some ''/about''}"
    by code_simp
  from login_scenario_drops_login
    [of "[Some ''http://example.com/login'', Some ''/about'', Some ''http://example.com/login'']"
        "{Some ''/about''}"] r
  show ?thesis by simp
qed

text \<open>
  Claim C4 fails as stated: with the deny-words of the class the empty string is kept.
\<close>

theorem empty_link_is_kept:
  "clean_webpage_links example_spider [Some ''''] = Inr {Some ''''}"
  by code_simp

text \<open>
  Claim C4, amended. The filter returns a set on every candidate list without
  \<^verbatim>\<open>None\<close>, and a set it returns never holds \<^verbatim>\<open>None\<close> and never holds \<^verbatim>\<open>"/"\<close>,
  whatever the deny-words. The empty string is not dropped for its own sake: it is in the
  set exactly when it is a candidate and some deny-word is not empty.
\<close>

theorem clean_webpage_links_never_keeps:
  "(None \<notin> set links_list \<longrightarrow> (\<exists>kept. clean_webpage_links self links_list = Inr kept))
   \<and> (clean_webpage_links self links_list = Inr kept \<longrightarrow>
        None \<notin> kept \<and> Some ''/'' \<notin> kept
        \<and> (Some '''' \<in> kept \<longleftrightarrow>
             Some '''' \<in> set links_list \<and> (\<exists>w \<in> set (filter_word_list self). w \<noteq> '''')))"
proof (intro conjI impI)
  assume "None \<notin> set links_list"
  then show "\<exists>kept. clean_webpage_links self links_list = Inr kept"
    by (simp add: clean_webpage_links_returns)
next
  assume r: "clean_webpage_links self links_list = Inr kept"
  from clean_webpage_links_kept [OF r] show "None \<notin> kept" by simp
  from clean_webpage_links_kept [OF r] show "Some ''/'' \<notin> kept" by simp
  from clean_webpage_links_kept [OF r]
  show "Some '''' \<in> kept \<longleftrightarrow>
          Some '''' \<in> set links_list \<and> (\<exists>w \<in> set (filter_word_list self). w \<noteq> '''')"
    by auto
qed

text \<open>
  An instance with the deny-words of the class.
\<close>

theorem clean_webpage_links_never_keeps_witness:
  "None \<notin> set [Some '''', Some ''/'', Some ''/menu'']
   \<and> clean_webpage_links example_spider [Some '''', Some ''/'', Some ''/menu'']
       = Inr {Some '''', Some ''/menu''}
   \<and> None \<notin> {Some '''', Some ''/menu''} \<and> Some ''/'' \<notin> {Some '''', Some ''/menu''}
   \<and> Some '''' \<in> {Some '''', Some ''/menu''}"
proof -
  have r: "clean_webpage_links example_spider [Some '''', Some ''/'', Some ''/menu'']
       = Inr {Some '''', Some ''/menu''}"
    by code_simp
  from clean_webpage_links_never_keeps
    [of "[Some '''', Some ''/'', Some ''/menu'']" example_spider "{Some '''', Some ''/menu''}"] r
  show ?thesis by simp
qed

section \<open>Persisting pages\<close>

lemma generate_output_file_name_pdf:
  "\<exists>name. generate_output_file_name e self w ''pdf'' = Inr name"
  by (simp add: generate_output_file_name_def lower_flags Let_def)

lemma generate_output_file_name_txt:
  "\<exists>name. generate_output_file_name e self w ''txt'' = Inr name"
  by (simp add: generate_output_file_name_def lower_flags Let_def)

lemma save_webpage_as_pdf_files:
  "\<exists>f. save_webpage_as_pdf e self u r = Inr (self\<lparr>files := f\<rparr>)"
  using generate_output_file_name_pdf [of e self u]
  by (auto simp: save_webpage_as_pdf_def Let_def)

lemma save_webpage_as_text_files:
  "\<exists>f. save_webpage_as_text e self u r = Inr (self\<lparr>files := f\<rparr>)"
  using generate_output_file_name_txt [of e self u]
  by (auto simp: save_webpage_as_text_def Let_def)


text \<open>
  Claim C9. For a flag whose lower case is \<^verbatim>\<open>pdf\<close> or \<^verbatim>\<open>txt\<close> the name is
  returned, not raised, and it is a function of the root site, the link and the flag
  alone: two instances with the same root site, whatever else differs between them (the
  visited set, the files, the requests made so far), get the same name.
\<close>

theorem generate_output_file_name_deterministic:
  assumes "lower file_type_flag \<in> {''pdf'', ''txt''}"
    and "root_site self = root_site self'"
  shows "generate_output_file_name e self webpage file_type_flag =
           generate_output_file_name e self' webpage file_type_flag
         \<and> generate_output_file_name e self webpage file_type_flag =
             Inr (replace_char (CHR ''/'') (CHR ''_'')
                    (replace_char (CHR 0x5C) (CHR ''_'') (root_site self))
                  @ md5_hexdigest e (root_site self @ webpage) @ ''.'' @ lower file_type_flag)"
  using assms by (auto simp: generate_output_file_name_def Let_def)

text \<open>
  An instance: an upper-case flag, on an instance with and one without indexing.
\<close>

theorem generate_output_file_name_deterministic_witness:
  "lower ''PDF'' \<in> {''pdf'', ''txt''}
   \<and> root_site example_spider = root_site example_indexing_spider
   \<and> generate_output_file_name example_env example_spider ''/menu'' ''PDF'' =
       Inr ''http:__example.commd5:http://example.com/menu.pdf''
   \<and> generate_output_file_name example_env example_indexing_spider ''/menu'' ''PDF'' =
       Inr ''http:__example.commd5:http://example.com/menu.pdf''"
proof -
  have flag: "lower ''PDF'' \<in> {''pdf'', ''txt''}" by code_simp
  have root: "root_site example_spider = root_site example_indexing_spider"
    by (simp add: example_spider_def example_indexing_spider_def init_def)
  have name: "generate_output_file_name example_env example_spider ''/menu'' ''PDF'' =
       Inr ''http:__example.commd5:http://example.com/menu.pdf''"
    by code_simp
  from generate_output_file_name_deterministic [OF flag root, of example_env "''/menu''"]
  have "generate_output_file_name example_env example_spider ''/menu'' ''PDF'' =
          generate_output_file_name example_env example_indexing_spider ''/menu'' ''PDF''"
    by (rule conjunct1)
  with flag root name show ?thesis by simp
qed

text \<open>
  Claim C8 fails as stated for text pages: the file is opened for appending, so saving
  the same page a second time leaves the page twice in the file.
\<close>

theorem text_saved_twice_is_stored_twice:
  "save_webpage_as_text example_env example_spider ''/menu'' (example_page ''menu page'') =
     Inr (example_spider\<lparr>files :=
       [''out/http:__example.commd5:http://example.com/menu.txt.txt'' \<mapsto>
          ''root_site:http://example.com\<newline>web_url:/menu\<newline>menu page'']\<rparr>)
   \<and> save_webpage_as_text example_env
         (example_spider\<lparr>files :=
            [''out/http:__example.commd5:http://example.com/menu.txt.txt'' \<mapsto>
               ''root_site:http://example.com\<newline>web_url:/menu\<newline>menu page'']\<rparr>)
         ''/menu'' (example_page ''menu page'') =
     Inr (example_spider\<lparr>files :=
       [''out/http:__example.commd5:http://example.com/menu.txt.txt'' \<mapsto>
          ''root_site:http://example.com\<newline>web_url:/menu\<newline>menu page''
          @ ''root_site:http://example.com\<newline>web_url:/menu\<newline>menu page'']\<rparr>)"
  by (simp add: save_webpage_as_text_def generate_output_file_name_def lower_flags Let_def
      example_spider_def init_def example_env_def example_page_def replace_char_def)

text \<open>
  Claim C8, amended. For every root site and link both savers compute the same name,
  hence the same path, on every call. Saving a PDF again overwrites: the second save
  leaves the instance and the files exactly as the first did. Saving a text page again
  writes to the same file and to no other, but appends: after the second save the file
  holds what it held before the first, followed by the header and body twice.
\<close>

theorem persisting_again:
  "\<exists>pdf_name txt_name s1 t1 t2.
      generate_output_file_name e self web_url ''pdf'' = Inr pdf_name
    \<and> save_webpage_as_pdf e self web_url page = Inr s1
    \<and> save_webpage_as_pdf e s1 web_url page = Inr s1
    \<and> files s1 = (files self)(raw_files_save_path self @ pdf_name @ ''.pdf'' \<mapsto> content page)
    \<and> generate_output_file_name e self web_url ''txt'' = Inr txt_name
    \<and> save_webpage_as_text e self web_url page = Inr t1
    \<and> save_webpage_as_text e t1 web_url page = Inr t2
    \<and> (let path = raw_files_save_path self @ txt_name @ ''.txt'';
            before = (case files self path of None \<Rightarrow> [] | Some old \<Rightarrow> old);
            block = ''root_site:'' @ root_site self @ [CHR 0x0A]
                    @ ''web_url:'' @ web_url @ [CHR 0x0A] @ page_text page
        in files t1 = (files self)(path \<mapsto> before @ block)
           \<and> files t2 = (files self)(path \<mapsto> before @ block @ block))"
  by (simp add: save_webpage_as_pdf_def save_webpage_as_text_def
      generate_output_file_name_def lower_flags Let_def)

section \<open>One parent\<close>

lemma upload_data_to_sql_calls:
  "upload_data_to_sql self df flag = Inr self' \<Longrightarrow>
     \<exists>call. self' = self\<lparr>sql_calls := sql_calls self @ [call]\<rparr>"
  by (auto simp: upload_data_to_sql_def split: if_splits option.splits)

lemma run_spider_links_result:
  assumes "run_spider_links e p page s c = (r, s', c')"
  shows "s' = s\<lparr>sql_calls := sql_calls s'\<rparr>
         \<and> (r = None \<longrightarrow>
              (\<exists>kept. clean_webpage_links s (find_all_a_href e (content page)) = Inr kept
                      \<and> c' = c \<union> kept))"
proof (cases "clean_webpage_links s (find_all_a_href e (content page))")
  case (Inl err)
  with assms have "r = Some err" "s' = s"
    by (auto simp: run_spider_links_def get_all_links_from_page_def)
  then show ?thesis by simp
next
  case (Inr kept)
  show ?thesis
  proof (cases "indexing_on s")
    case False
    with Inr assms have "r = None" "s' = s" "c' = c \<union> kept"
      by (auto simp: run_spider_links_def get_all_links_from_page_def)
    with Inr show ?thesis by simp
  next
    case True
    let ?df = "create_parent_child_dataframe e s p (c \<union> kept)"
    show ?thesis
    proof (cases "upload_data_to_sql s ?df ''index''")
      case (Inl err)
      with True Inr assms have "r = Some err" "s' = s"
        by (auto simp: run_spider_links_def get_all_links_from_page_def Let_def)
      then show ?thesis by simp
    next
      case up: (Inr s2)
      with True Inr assms have "r = None" "s' = s2" "c' = c \<union> kept"
        by (auto simp: run_spider_links_def get_all_links_from_page_def Let_def)
      with upload_data_to_sql_calls [OF up] Inr show ?thesis by auto
    qed
  qed
qed

lemma run_spider_links_no_indexing:
  "\<not> indexing_on s \<Longrightarrow> run_spider_links e p page s c = (r, s', c') \<Longrightarrow> s' = s"
  by (auto simp: run_spider_links_def Let_def split: sum.splits)


text \<open>
  What one turn of the inner loop does, for a parent seen before and for a new one.
\<close>

lemma run_spider_parent_visited:
  "p \<in> unique_links_set s \<Longrightarrow> run_spider_parent e p s c = (None, s, c)"
  by (simp add: run_spider_parent_def)

lemma run_spider_parent_new:
  assumes new: "p \<notin> unique_links_set s"
    and run: "run_spider_parent e p s c = (r, s', c')"
  shows "s' = s\<lparr>unique_links_set := insert p (unique_links_set s),
                requested := requested s @ [p], files := files s', sql_calls := sql_calls s'\<rparr>
         \<and> (r = None \<longrightarrow> c' = c \<union> filtered_children e s p)
         \<and> (\<not> indexing_on s \<longrightarrow> sql_calls s' = sql_calls s)"
proof -
  let ?s1 = "s\<lparr>unique_links_set := insert p (unique_links_set s), requested := requested s @ [p]\<rparr>"
  show ?thesis
  proof (cases "session_get e p")
    case (Inl err)
    with new run have "r = Some err" "s' = ?s1"
      by (auto simp: run_spider_parent_def get_request_with_delay_def Let_def)
    then show ?thesis by simp
  next
    case (Inr page)
    show ?thesis
    proof (cases "status_code page = 200")
      case False
      with Inr new run have "r = None" "s' = ?s1" "c' = c"
        by (auto simp: run_spider_parent_def get_request_with_delay_def Let_def)
      moreover from False Inr have "filtered_children e s p = {}"
        by (auto simp: filtered_children_def split: option.splits)
      ultimately show ?thesis by simp
    next
      case ok: True
      show ?thesis
      proof (cases p)
        case None
        with ok Inr new run have "r = Some AttributeError" "s' = ?s1"
          by (auto simp: run_spider_parent_def get_request_with_delay_def Let_def)
        then show ?thesis by simp
      next
        case (Some url)
        have kept_eq: "filtered_children e s p = kept"
          if "\<not> (endswith (lower url) ''xlsx'' \<or> endswith (lower url) ''xls'')"
            and "clean_webpage_links s (find_all_a_href e (content page)) = Inr kept" for kept
          using that Some ok Inr by (simp add: filtered_children_def)
        have after_save: ?thesis
          if links: "run_spider_links e p page (?s1\<lparr>files := f\<rparr>) c = (r, s', c')"
            and nosheet: "\<not> (endswith (lower url) ''xlsx'' \<or> endswith (lower url) ''xls'')" for f
        proof -
          have cl: "clean_webpage_links (?s1\<lparr>files := f\<rparr>) (find_all_a_href e (content page))
                      = clean_webpage_links s (find_all_a_href e (content page))"
            by (rule clean_webpage_links_cong) simp
          from run_spider_links_result [OF links] cl
          have shape: "s' = ?s1\<lparr>files := f, sql_calls := sql_calls s'\<rparr>"
            and kept: "r = None \<longrightarrow> (\<exists>kept. clean_webpage_links s (find_all_a_href e (content page)) = Inr kept
                      \<and> c' = c \<union> kept)"
            by auto
          from shape have "files s' = f"
            by (metis (no_types) WebSpider.select_convs(9) WebSpider.surjective WebSpider.update_convs(9) WebSpider.update_convs(10))
          with shape have "s' = s\<lparr>unique_links_set := insert p (unique_links_set s),
                requested := requested s @ [p], files := files s', sql_calls := sql_calls s'\<rparr>"
            by simp
          moreover from kept kept_eq [OF nosheet] have "r = None \<longrightarrow> c' = c \<union> filtered_children e s p"
            by auto
          moreover have "sql_calls s' = sql_calls s" if "\<not> indexing_on s"
          proof -
            from that links have "s' = ?s1\<lparr>files := f\<rparr>"
              by (rule_tac run_spider_links_no_indexing) simp_all
            then show ?thesis by simp
          qed
          ultimately show ?thesis by blast
        qed
        consider (pdf) "endswith (lower url) ''pdf''"
          | (sheet) "\<not> endswith (lower url) ''pdf''"
              "endswith (lower url) ''xlsx'' \<or> endswith (lower url) ''xls''"
          | (page) "\<not> endswith (lower url) ''pdf''"
              "\<not> (endswith (lower url) ''xlsx'' \<or> endswith (lower url) ''xls'')"
          by blast
        then show ?thesis
        proof cases
          case sheet
          with Some ok Inr new run have "r = None" "s' = ?s1" "c' = c"
            by (auto simp: run_spider_parent_def get_request_with_delay_def Let_def
                split: if_splits)
          moreover from sheet Some ok Inr have "filtered_children e s p = {}"
            by (auto simp: filtered_children_def)
          ultimately show ?thesis by simp
        next
          case pdf
          from save_webpage_as_pdf_files [of e ?s1 url page]
          obtain f where f: "save_webpage_as_pdf e ?s1 url page = Inr (?s1\<lparr>files := f\<rparr>)" ..
          with pdf Some ok Inr new run
          have links: "run_spider_links e p page (?s1\<lparr>files := f\<rparr>) c = (r, s', c')"
            by (auto simp: run_spider_parent_def get_request_with_delay_def Let_def)
          from pdf have "\<not> (endswith (lower url) ''xlsx'' \<or> endswith (lower url) ''xls'')"
            using spreadsheet_not_pdf by blast
          with links show ?thesis by (rule after_save)
        next
          case page
          from save_webpage_as_text_files [of e ?s1 url page]
          obtain f where f: "save_webpage_as_text e ?s1 url page = Inr (?s1\<lparr>files := f\<rparr>)" ..
          with page Some ok Inr new run
          have links: "run_spider_links e p page (?s1\<lparr>files := f\<rparr>) c = (r, s', c')"
            by (auto simp: run_spider_parent_def get_request_with_delay_def Let_def)
          from links page(2) show ?thesis by (rule after_save)
        qed
      qed
    qed
  qed
qed




lemma configuration_indexing_on:
  "configuration s' = configuration s \<Longrightarrow> indexing_on s' = indexing_on s"
  by (simp add: configuration_def)

lemma run_spider_parent_step:
  assumes "run_spider_parent e p s c = (r, s', c')"
  shows "configuration s' = configuration s"
    and "unique_links_set s' = insert p (unique_links_set s)"
    and "requested s' = (if p \<in> unique_links_set s then requested s else requested s @ [p])"
    and "r = None \<Longrightarrow> c' = (if p \<in> unique_links_set s then c else c \<union> filtered_children e s p)"
    and "\<not> indexing_on s \<Longrightarrow> sql_calls s' = sql_calls s"
proof -
  have all: "configuration s' = configuration s
      \<and> unique_links_set s' = insert p (unique_links_set s)
      \<and> requested s' = (if p \<in> unique_links_set s then requested s else requested s @ [p])
      \<and> (r = None \<longrightarrow> c' = (if p \<in> unique_links_set s then c else c \<union> filtered_children e s p))
      \<and> (\<not> indexing_on s \<longrightarrow> sql_calls s' = sql_calls s)"
  proof (cases "p \<in> unique_links_set s")
    case True
    with assms run_spider_parent_visited [OF True, of e c]
    show ?thesis by (auto simp: insert_absorb)
  next
    case False
    from run_spider_parent_new [OF False assms]
    have shape: "s' = s\<lparr>unique_links_set := insert p (unique_links_set s),
                requested := requested s @ [p], files := files s', sql_calls := sql_calls s'\<rparr>"
      and rest: "r = None \<longrightarrow> c' = c \<union> filtered_children e s p"
        "\<not> indexing_on s \<longrightarrow> sql_calls s' = sql_calls s"
      by blast+
    have "configuration s' = configuration s"
      by (subst shape) (simp add: configuration_def)
    moreover have "unique_links_set s' = insert p (unique_links_set s)"
      by (subst shape) simp
    moreover have "requested s' = requested s @ [p]"
      by (subst shape) simp
    ultimately show ?thesis using False rest by simp
  qed
  from all show "configuration s' = configuration s" by blast
  from all show "unique_links_set s' = insert p (unique_links_set s)" by blast
  from all show "requested s' = (if p \<in> unique_links_set s then requested s else requested s @ [p])"
    by blast
  from all show "r = None \<Longrightarrow> c' = (if p \<in> unique_links_set s then c else c \<union> filtered_children e s p)"
    by blast
  from all show "\<not> indexing_on s \<Longrightarrow> sql_calls s' = sql_calls s" by blast
qed


text \<open>
  Claim C10. A link that is not yet visited and whose lower case ends with
  \<^verbatim>\<open>xlsx\<close> or \<^verbatim>\<open>xls\<close> is marked visited and requested, and whatever the status of
  the response, 200 included, nothing else happens: no file is written, no call reaches
  the relational side, and the children of the depth stay as they were.
\<close>

theorem spreadsheet_link_fetched_without_effect:
  assumes "endswith (lower url) ''xlsx'' \<or> endswith (lower url) ''xls''"
    and "Some url \<notin> unique_links_set self"
    and "session_get e (Some url) = Inr page"
  shows "run_spider_parent e (Some url) self children =
           (None,
            self\<lparr>unique_links_set := insert (Some url) (unique_links_set self),
                 requested := requested self @ [Some url]\<rparr>,
            children)"
  using assms spreadsheet_not_pdf [of "lower url"]
  by (auto simp: run_spider_parent_def get_request_with_delay_def Let_def)

text \<open>
  An instance: an upper-case spreadsheet link answered with status 200.
\<close>

theorem spreadsheet_link_fetched_without_effect_witness:
  "(endswith (lower ''/PRICES.XLSX'') ''xlsx'' \<or> endswith (lower ''/PRICES.XLSX'') ''xls'')
   \<and> Some ''/PRICES.XLSX'' \<notin> unique_links_set example_spider
   \<and> session_get example_env (Some ''/PRICES.XLSX'') = Inr (example_page ''sheet'')
   \<and> status_code (example_page ''sheet'') = 200
   \<and> run_spider_parent example_env (Some ''/PRICES.XLSX'') example_spider {Some ''/menu''} =
        (None,
         example_spider\<lparr>unique_links_set := {Some ''/PRICES.XLSX''},
                        requested := [Some ''/PRICES.XLSX'']\<rparr>,
         {Some ''/menu''})"
proof -
  have sheet: "endswith (lower ''/PRICES.XLSX'') ''xlsx'' \<or> endswith (lower ''/PRICES.XLSX'') ''xls''"
    by code_simp
  have new: "Some ''/PRICES.XLSX'' \<notin> unique_links_set example_spider"
    by (simp add: example_spider_def init_def)
  have page: "session_get example_env (Some ''/PRICES.XLSX'') = Inr (example_page ''sheet'')"
    by (simp add: example_env_def)
  have start: "unique_links_set example_spider = {}" "requested example_spider = []"
    "status_code (example_page ''sheet'') = 200"
    by (simp_all add: example_spider_def init_def example_page_def)
  from spreadsheet_link_fetched_without_effect [OF sheet new page, of "{Some ''/menu''}"]
    sheet new page start
  show ?thesis by simp
qed

section \<open>The loops\<close>

lemma run_spider_parents_frame:
  "run_spider_parents e ps s c = (r, s', c') \<Longrightarrow>
     configuration s' = configuration s
     \<and> unique_links_set s \<subseteq> unique_links_set s'
     \<and> prefix (requested s) (requested s')
     \<and> (\<not> indexing_on s \<longrightarrow> sql_calls s' = sql_calls s)"
proof (induction ps arbitrary: s c)
  case Nil
  then show ?case by simp
next
  case (Cons p ps)
  obtain r1 s1 c1 where one: "run_spider_parent e p s c = (r1, s1, c1)"
    by (cases "run_spider_parent e p s c")
  note st = run_spider_parent_step [OF one]
  show ?case
  proof (cases r1)
    case (Some err)
    with one Cons.prems have "s' = s1" by simp
    with st show ?thesis by auto
  next
    case None
    with one Cons.prems have "run_spider_parents e ps s1 c1 = (r, s', c')" by simp
    from Cons.IH [OF this] st configuration_indexing_on [OF st(1)]
    show ?thesis by (auto dest: append_prefixD split: if_splits)
  qed
qed

lemma run_spider_parents_once:
  "run_spider_parents e ps s c = (r, s', c') \<Longrightarrow>
   distinct (requested s) \<Longrightarrow> set (requested s) \<subseteq> unique_links_set s \<Longrightarrow>
     distinct (requested s') \<and> set (requested s') \<subseteq> unique_links_set s'"
proof (induction ps arbitrary: s c)
  case Nil
  then show ?case by simp
next
  case (Cons p ps)
  obtain r1 s1 c1 where one: "run_spider_parent e p s c = (r1, s1, c1)"
    by (cases "run_spider_parent e p s c")
  note st = run_spider_parent_step [OF one]
  from st(2,3) Cons.prems(2,3)
  have inv1: "distinct (requested s1)" "set (requested s1) \<subseteq> unique_links_set s1"
    by (auto split: if_splits)
  show ?case
  proof (cases r1)
    case (Some err)
    with one Cons.prems(1) have "s' = s1" by simp
    with inv1 show ?thesis by simp
  next
    case None
    with one Cons.prems(1) have "run_spider_parents e ps s1 c1 = (r, s', c')" by simp
    from Cons.IH [OF this inv1] show ?thesis .
  qed
qed


lemma run_spider_depths_frame:
  "run_spider_depths e ds s c = (r, s', c') \<Longrightarrow>
     configuration s' = configuration s
     \<and> unique_links_set s \<subseteq> unique_links_set s'
     \<and> prefix (requested s) (requested s')
     \<and> (\<not> indexing_on s \<longrightarrow> sql_calls s' = sql_calls s)"
proof (induction ds arbitrary: s c)
  case Nil
  then show ?case by simp
next
  case (Cons d ds)
  obtain r1 s1 c1 where one: "run_spider_depth e d s c = (r1, s1, c1)"
    by (cases "run_spider_depth e d s c")
  from one have fr: "configuration s1 = configuration s
     \<and> unique_links_set s \<subseteq> unique_links_set s1
     \<and> prefix (requested s) (requested s1)
     \<and> (\<not> indexing_on s \<longrightarrow> sql_calls s1 = sql_calls s)"
    unfolding run_spider_depth_def by (rule run_spider_parents_frame)
  show ?case
  proof (cases r1)
    case (Some err)
    with one Cons.prems have "s' = s1" by simp
    with fr show ?thesis by simp
  next
    case None
    with one Cons.prems have "run_spider_depths e ds s1 c1 = (r, s', c')" by simp
    from Cons.IH [OF this] fr configuration_indexing_on [of s1 s]
    show ?thesis by (auto intro: prefix_order.trans)
  qed
qed

lemma run_spider_depths_once:
  "run_spider_depths e ds s c = (r, s', c') \<Longrightarrow>
   distinct (requested s) \<Longrightarrow> set (requested s) \<subseteq> unique_links_set s \<Longrightarrow>
     distinct (requested s') \<and> set (requested s') \<subseteq> unique_links_set s'"
proof (induction ds arbitrary: s c)
  case Nil
  then show ?case by simp
next
  case (Cons d ds)
  obtain r1 s1 c1 where one: "run_spider_depth e d s c = (r1, s1, c1)"
    by (cases "run_spider_depth e d s c")
  from one Cons.prems(2,3)
  have inv1: "distinct (requested s1) \<and> set (requested s1) \<subseteq> unique_links_set s1"
    unfolding run_spider_depth_def by (rule run_spider_parents_once)
  show ?case
  proof (cases r1)
    case (Some err)
    with one Cons.prems(1) have "s' = s1" by simp
    with inv1 show ?thesis by simp
  next
    case None
    with one Cons.prems(1) have "run_spider_depths e ds s1 c1 = (r, s', c')" by simp
    from Cons.IH [OF this] inv1 show ?thesis by blast
  qed
qed

lemma run_spider_depths_append:
  "run_spider_depths e (ds @ ds') s c =
     (case run_spider_depths e ds s c of
        (Some err, s', c') \<Rightarrow> (Some err, s', c')
      | (None, s', c') \<Rightarrow> run_spider_depths e ds' s' c')"
  by (induction ds arbitrary: s c) (auto split: prod.splits option.splits)





text \<open>
  The run goes through the state after \<open>d\<close> depths, for every \<open>d\<close> up to
  \<^verbatim>\<open>pen_depth\<close>, and after the loops only the relational side is touched.
\<close>

lemma run_passes_through_depth:
  "d \<le> n \<Longrightarrow>
     run_spider_depths e [0 ..< n] s {} =
       (case after_depths e s d of
          (Some err, s', c') \<Rightarrow> (Some err, s', c')
        | (None, s', c') \<Rightarrow> run_spider_depths e [d ..< n] s' c')"
proof -
  assume "d \<le> n"
  then have "[0 ..< n] = [0 ..< d] @ [d ..< n]"
    by (metis le_add_diff_inverse upt_add_eq_append zero_le)
  then show ?thesis
    by (simp add: run_spider_depths_append after_depths_def)
qed

lemma run_spider_after_loops:
  assumes "after_depths e s (nat (pen_depth s)) = (r, s', c')"
  shows "requested (snd (run_spider e s)) = requested s'"
    and "unique_links_set (snd (run_spider e s)) = unique_links_set s'"
    and "files (snd (run_spider e s)) = files s'"
    and "r \<noteq> None \<Longrightarrow> run_spider e s = (r, s')"
  using assms
  by (auto simp: run_spider_def after_depths_def upload_data_to_sql_def
      split: option.splits sum.splits if_splits)


text \<open>
  Claim C5. In every run, also one that an exception ends, the links handed to the
  fetcher are pairwise distinct and each is in the visited set, provided this held at the
  start (as it does for a new instance); the list of requests is only extended and the
  visited set only grows. A parent already in the visited set leaves the instance, the
  files, the relational side and the children untouched; a parent not in it is in it
  when its request is made.
\<close>

theorem each_link_requested_at_most_once:
  "(distinct (requested self) \<and> set (requested self) \<subseteq> unique_links_set self \<longrightarrow>
      distinct (requested (snd (run_spider e self)))
      \<and> set (requested (snd (run_spider e self))) \<subseteq> unique_links_set (snd (run_spider e self)))
   \<and> prefix (requested self) (requested (snd (run_spider e self)))
   \<and> unique_links_set self \<subseteq> unique_links_set (snd (run_spider e self))
   \<and> (p \<in> unique_links_set s \<longrightarrow> run_spider_parent e p s c = (None, s, c))
   \<and> (q \<notin> unique_links_set s \<longrightarrow>
        requested (fst (snd (run_spider_parent e q s c))) = requested s @ [q]
        \<and> q \<in> unique_links_set (fst (snd (run_spider_parent e q s c))))"
proof -
  obtain r s' c' where loops: "after_depths e self (nat (pen_depth self)) = (r, s', c')"
    by (cases "after_depths e self (nat (pen_depth self))")
  note fin = run_spider_after_loops(1,2) [OF loops]
  from loops have run: "run_spider_depths e [0 ..< nat (pen_depth self)] self {} = (r, s', c')"
    by (simp add: after_depths_def)
  have once: "distinct (requested (snd (run_spider e self)))
      \<and> set (requested (snd (run_spider e self))) \<subseteq> unique_links_set (snd (run_spider e self))"
    if "distinct (requested self)" "set (requested self) \<subseteq> unique_links_set self"
    using run_spider_depths_once [OF run that] fin by simp
  from run_spider_depths_frame [OF run] fin
  have grow: "prefix (requested self) (requested (snd (run_spider e self)))"
    "unique_links_set self \<subseteq> unique_links_set (snd (run_spider e self))"
    by simp_all
  have skip: "run_spider_parent e p s c = (None, s, c)" if "p \<in> unique_links_set s"
    using that by (rule run_spider_parent_visited)
  have mark: "requested (fst (snd (run_spider_parent e q s c))) = requested s @ [q]
        \<and> q \<in> unique_links_set (fst (snd (run_spider_parent e q s c)))"
    if "q \<notin> unique_links_set s"
  proof -
    obtain r1 s1 c1 where one: "run_spider_parent e q s c = (r1, s1, c1)"
      by (cases "run_spider_parent e q s c")
    from run_spider_parent_step(2,3) [OF one] that one show ?thesis by simp
  qed
  from once grow skip mark show ?thesis by blast
qed

text \<open>
  An instance: a run over three depths in which \<^verbatim>\<open>"/menu"\<close> is a child of the root
  and of itself and is requested once.
\<close>

theorem each_link_requested_at_most_once_witness:
  "distinct (requested example_spider)
   \<and> set (requested example_spider) \<subseteq> unique_links_set example_spider
   \<and> requested (snd (run_spider example_env example_spider)) =
       [Some ''http://example.com'', Some ''/PRICES.XLSX'', Some ''/menu'', Some ''/drinks'']
   \<and> distinct (requested (snd (run_spider example_env example_spider)))
   \<and> Some ''/menu'' \<in> unique_links_set (example_spider\<lparr>unique_links_set := {Some ''/menu''}\<rparr>)
   \<and> run_spider_parent example_env (Some ''/menu'')
         (example_spider\<lparr>unique_links_set := {Some ''/menu''}\<rparr>) {} =
       (None, example_spider\<lparr>unique_links_set := {Some ''/menu''}\<rparr>, {})
   \<and> Some ''/drinks'' \<notin> unique_links_set (example_spider\<lparr>unique_links_set := {Some ''/menu''}\<rparr>)
   \<and> requested (fst (snd (run_spider_parent example_env (Some ''/drinks'')
         (example_spider\<lparr>unique_links_set := {Some ''/menu''}\<rparr>) {}))) = [Some ''/drinks'']"
proof -
  let ?s = "example_spider\<lparr>unique_links_set := {Some ''/menu''}\<rparr>"
  have fresh: "distinct (requested example_spider)"
    "set (requested example_spider) \<subseteq> unique_links_set example_spider"
    "requested ?s = []"
    by (simp_all add: example_spider_def init_def)
  have log: "requested (snd (run_spider example_env example_spider)) =
       [Some ''http://example.com'', Some ''/PRICES.XLSX'', Some ''/menu'', Some ''/drinks'']"
    by code_simp
  have seen: "Some ''/menu'' \<in> unique_links_set ?s" "Some ''/drinks'' \<notin> unique_links_set ?s"
    by simp_all
  from each_link_requested_at_most_once
    [of example_spider example_env "Some ''/menu''" ?s "{}" "Some ''/drinks''"]
    fresh log seen
  show ?thesis by simp
qed



section \<open>Indexing\<close>

text \<open>
  Every row of the data frame of a parent carries \<^verbatim>\<open>self.pen_depth\<close>, which no
  depth of the loop equals.
\<close>

lemma create_parent_child_dataframe_depth:
  "create_parent_child_dataframe e self parent_link child_links = Parent_child rows \<Longrightarrow>
     \<forall>row \<in> set rows. fst row = pen_depth self"
  by (auto simp: create_parent_child_dataframe_def)

lemma create_parent_child_dataframe_not_loop_depth:
  "depth \<in> set [0 ..< nat (pen_depth self)] \<Longrightarrow>
   create_parent_child_dataframe e self parent_link child_links = Parent_child rows \<Longrightarrow>
     \<forall>row \<in> set rows. fst row \<noteq> int depth"
  by (auto simp: create_parent_child_dataframe_def)

text \<open>
  Claim C1 does not hold of the code: in a run with indexing and \<^verbatim>\<open>pen_depth = 3\<close>
  the rows uploaded for the root, fetched at depth 0, and for \<^verbatim>\<open>"/menu"\<close>, fetched at
  depth 1, all carry 3.
\<close>

theorem edge_rows_record_pen_depth:
  "sql_calls (snd (run_spider example_env example_indexing_spider)) =
     [To_sql ''indexing'' ''raw''
        (Parent_child
           [(3, Some ''http://example.com'', Some ''/PRICES.XLSX''),
            (3, Some ''http://example.com'', Some ''/menu'')]),
      To_sql ''indexing'' ''raw''
        (Parent_child
           [(3, Some ''/menu'', Some ''/drinks''),
            (3, Some ''/menu'', Some ''/menu'')]),
      To_sql ''unique_links'' ''raw''
        (Unique_links
           [(0, Some ''/PRICES.XLSX''), (1, Some ''/drinks''), (2, Some ''/menu''),
            (3, Some ''http://example.com'')]),
      Dispose]"
  by code_simp

text \<open>
  Without an indexing object no call reaches the relational side, and the run never
  returns: the last line of \<^verbatim>\<open>run_spider\<close> reads the attribute that was never bound.
\<close>

lemma run_spider_without_indexing:
  assumes "indexing_definitions_obj self = None" and "\<not> indexing_on self"
  shows "fst (run_spider e self) \<noteq> None"
    and "sql_calls (snd (run_spider e self)) = sql_calls self"
proof -
  obtain r s' c' where loops: "run_spider_depths e [0 ..< nat (pen_depth self)] self {} = (r, s', c')"
    by (cases "run_spider_depths e [0 ..< nat (pen_depth self)] self {}")
  from run_spider_depths_frame [OF loops] assms
  have "indexing_definitions_obj s' = None" "\<not> indexing_on s'" "sql_calls s' = sql_calls self"
    by (simp_all add: configuration_def)
  with loops show "fst (run_spider e self) \<noteq> None"
    and "sql_calls (snd (run_spider e self)) = sql_calls self"
    by (auto simp: run_spider_def split: option.splits)
qed

text \<open>
  Claim C7 does not hold of the code: a run without indexing makes no call on the
  relational side, but ends with \<^verbatim>\<open>AttributeError\<close> instead of returning.
\<close>

theorem run_without_indexing_raises:
  "fst (run_spider example_env example_spider) = Some AttributeError
   \<and> sql_calls (snd (run_spider example_env example_spider)) = []"
  by code_simp

end
